theory Spec2Isabelle
  imports Complex_Main "HOL-Library.Sublist"
begin

section \<open>Data model\<close>

text \<open>
  The notebook \<open>contextual_retrieval.ipynb\<close> defines a hybrid retriever
  (\<open>LlamaIndexEmbeddingBM25RerankerRetriever\<close>), a transformation that enriches chunks
  with a generated context (\<open>LlamaIndexContextualEnrichment\<close>) and a function that
  aggregates evaluation results (\<open>llama_index_evaluation_print_results\<close>).

  Exceptions are values: a call that raises returns an \<open>error\<close>. The scores of
  retrieved nodes are rational numbers, which the model only compares; the value NaN as a
  score is outside the model.
\<close>

datatype error =
    FetchError string
  | GenerationError string
  | UnboundLocalError string
  | KeyError string
  | RetrievalError string
  | RerankError string

text \<open>A Python value stored in a metadata dictionary.\<close>

datatype py_value = Str string | Num rat

datatype node_relationship = SOURCE | PREVIOUS | NEXT | PARENT | CHILD

text \<open>
  A llama-index text node. \<open>relationships\<close> is a dictionary whose keys are iterated in
  insertion order, so it is an association list; the value kept for a key is the
  \<open>node_id\<close> of the related node, the only attribute the notebook reads.
\<close>

record text_node =
  node_id :: string
  node_text :: string
  metadata :: "string \<rightharpoonup> py_value"
  relationships :: "(node_relationship \<times> string) list"

record node_with_score =
  node :: text_node
  score :: rat

definition LLAMA_INDEX_RETRIEVAL_EVALUATION_METRICS :: "string list" where
  "LLAMA_INDEX_RETRIEVAL_EVALUATION_METRICS = [''hit_rate'', ''mrr'', ''recall'']"

definition LLAMA_INDEX_RETRIEVAL_TOP_K :: nat where
  "LLAMA_INDEX_RETRIEVAL_TOP_K = 5"

definition LLAMA_INDEX_RERANKER :: string where
  "LLAMA_INDEX_RERANKER = ''colbert-ir/colbertv2.0''"

section \<open>The hybrid retriever\<close>

text \<open>
  The three attributes set by \<open>__init__\<close>. A sub-retriever maps the query to its
  candidates, or raises; the reranker maps the candidates and the query to the final list,
  or raises. Here each call returns a list of its own; the lists as shared objects
  follow below.
\<close>

record hybrid_retriever =
  vector_retriever :: "string \<Rightarrow> error + node_with_score list"
  bm25_retriever :: "string \<Rightarrow> error + node_with_score list"
  reranker :: "node_with_score list \<Rightarrow> string \<Rightarrow> error + node_with_score list"

text \<open>The calls \<open>_retrieve\<close> makes on its collaborators, recorded in the order made.\<close>

datatype call =
    VectorRetrieve string
  | BM25Retrieve string
  | PostprocessNodes "node_with_score list" string

text \<open>
  \<open>_retrieve\<close>: the result (or the exception that left the method) and the calls made.
  \<open>vector_nodes.extend(bm25_nodes)\<close> appends the second list to the first.
\<close>

definition retrieve ::
    "hybrid_retriever \<Rightarrow> string \<Rightarrow> (error + node_with_score list) \<times> call list" where
  "retrieve self query_bundle =
     (case vector_retriever self query_bundle of
        Inl e \<Rightarrow> (Inl e, [VectorRetrieve query_bundle])
      | Inr vector_nodes \<Rightarrow>
          (case bm25_retriever self query_bundle of
             Inl e \<Rightarrow> (Inl e, [VectorRetrieve query_bundle, BM25Retrieve query_bundle])
           | Inr bm25_nodes \<Rightarrow>
               (let vector_nodes = vector_nodes @ bm25_nodes;
                    retrieved_nodes = reranker self vector_nodes query_bundle
                in (retrieved_nodes,
                    [VectorRetrieve query_bundle, BM25Retrieve query_bundle,
                     PostprocessNodes vector_nodes query_bundle]))))"

subsection \<open>The reranker\<close>

text \<open>The configuration the notebook constructs \<open>ColbertRerank\<close> with.\<close>

record colbert_rerank =
  top_n :: nat
  model :: string
  tokenizer :: string
  keep_retrieval_score :: bool

definition colbert_reranker :: colbert_rerank where
  "colbert_reranker =
     \<lparr>top_n = LLAMA_INDEX_RETRIEVAL_TOP_K,
      model = LLAMA_INDEX_RERANKER,
      tokenizer = LLAMA_INDEX_RERANKER,
      keep_retrieval_score = True\<rparr>"

text \<open>
  Modelled from the spec: the rescoring inside \<open>ColbertRerank.postprocess_nodes\<close>, which
  belongs to the llama-index package and is not part of the notebook. The specification describes the
  reranker as a capability \<open>function(query, candidate texts)\<close> giving a reordered subset
  with scores, configured by \<open>top_n\<close> (the output size cap) and by whether the score from
  before reranking is retained next to the new one; it reorders and truncates to top-N,
  descending by final score, ties broken by the original candidate order (a stable sort).
  The scoring model itself is the parameter \<open>sim\<close>.
\<close>

definition rescore ::
    "(string \<Rightarrow> string \<Rightarrow> rat) \<Rightarrow> colbert_rerank \<Rightarrow> string \<Rightarrow> node_with_score \<Rightarrow> node_with_score" where
  "rescore sim cfg query_bundle n =
     \<lparr>node = (if keep_retrieval_score cfg
              then (node n)\<lparr>metadata := (metadata (node n))(''retrieval_score'' \<mapsto> Num (score n))\<rparr>
              else node n),
      score = sim query_bundle (node_text (node n))\<rparr>"

text \<open>
  Modelled from the spec: \<open>ColbertRerank.postprocess_nodes\<close> (llama-index, not part of
  the notebook) rescores every candidate, reorders them by descending score with a stable
  sort, and truncates the list to \<open>top_n\<close>.
\<close>

definition postprocess_nodes ::
    "(string \<Rightarrow> string \<Rightarrow> rat) \<Rightarrow> colbert_rerank \<Rightarrow>
     node_with_score list \<Rightarrow> string \<Rightarrow> error + node_with_score list" where
  "postprocess_nodes sim cfg nodes query_bundle =
     Inr (take (top_n cfg)
            (sort_key (\<lambda>n. - score n) (map (rescore sim cfg query_bundle) nodes)))"

subsection \<open>The lists as objects\<close>

text \<open>
  \<open>vector_nodes.extend(bm25_nodes)\<close> changes a list in place, and that list is the
  object the vector retriever handed over. To follow a list from one run to the next, the
  lists are objects in a store, addressed by position. A collaborator is given the store
  and returns the address of its result list (or raises) together with the store it leaves:
  it may create a list, hand back one it already holds, or rewrite lists.
\<close>

type_synonym list_store = "node_with_score list list"

record object_retriever =
  vector_retriever_obj :: "string \<Rightarrow> list_store \<Rightarrow> (error + nat) \<times> list_store"
  bm25_retriever_obj :: "string \<Rightarrow> list_store \<Rightarrow> (error + nat) \<times> list_store"
  reranker_obj :: "nat \<Rightarrow> string \<Rightarrow> list_store \<Rightarrow> (error + nat) \<times> list_store"

text \<open>
  \<open>_retrieve\<close> on the store: \<open>extend\<close> writes the concatenation into the list at the
  address \<open>vector_nodes\<close>, whoever else holds that address.
\<close>

definition retrieve_obj ::
    "object_retriever \<Rightarrow> string \<Rightarrow> list_store \<Rightarrow> (error + nat) \<times> list_store" where
  "retrieve_obj self query_bundle st =
     (case vector_retriever_obj self query_bundle st of
        (Inl e, st1) \<Rightarrow> (Inl e, st1)
      | (Inr vector_nodes, st1) \<Rightarrow>
          (case bm25_retriever_obj self query_bundle st1 of
             (Inl e, st2) \<Rightarrow> (Inl e, st2)
           | (Inr bm25_nodes, st2) \<Rightarrow>
               (let st3 = st2[vector_nodes := st2 ! vector_nodes @ st2 ! bm25_nodes]
                in reranker_obj self vector_nodes query_bundle st3)))"

text \<open>The sequence a call returned, read in the store the call left.\<close>

definition ranked :: "(error + nat) \<times> list_store \<Rightarrow> error + node_with_score list" where
  "ranked r = (case fst r of Inl e \<Rightarrow> Inl e | Inr a \<Rightarrow> Inr (snd r ! a))"

text \<open>
  Collaborators that answer as those of a \<open>hybrid_retriever\<close> do and put every answer
  into a newly created list, leaving the lists that exist as they are.
\<close>

definition new_list :: "error + node_with_score list \<Rightarrow> list_store \<Rightarrow> (error + nat) \<times> list_store" where
  "new_list r st = (case r of Inl e \<Rightarrow> (Inl e, st) | Inr xs \<Rightarrow> (Inr (length st), st @ [xs]))"

definition with_new_lists :: "hybrid_retriever \<Rightarrow> object_retriever" where
  "with_new_lists p =
     \<lparr>vector_retriever_obj = (\<lambda>q st. new_list (vector_retriever p q) st),
      bm25_retriever_obj = (\<lambda>q st. new_list (bm25_retriever p q) st),
      reranker_obj = (\<lambda>a q st. new_list (reranker p (st ! a) q) st)\<rparr>"

section \<open>The contextual enricher\<close>

text \<open>
  The collaborators of \<open>LlamaIndexContextualEnrichment.__call__\<close>:
  \<open>requests.get(url).text\<close>, \<open>html2text.html2text\<close> and
  \<open>Settings.llm.complete(prompt).text\<close>. A fetch and a completion may raise.
\<close>

record enrich_env =
  requests_get :: "string \<Rightarrow> error + string"
  html2text :: "string \<Rightarrow> string"
  llm_complete :: "string \<Rightarrow> error + string"

text \<open>
  Nodes are Python objects, and \<open>__call__\<close> writes into one: the objects live in a
  heap, a list addressed by position, and the input and output lists hold addresses.
  The remaining fields are the local variables of \<open>__call__\<close>; \<open>source_url\<close> is
  \<open>None\<close> as long as the variable is unbound. \<open>fetched\<close> records the arguments of the
  calls of \<open>requests.get\<close> and \<open>stdout\<close> the progress lines (node id, current index,
  total), both in the order made.
\<close>

record enrich_state =
  heap :: "text_node list"
  web_page_content :: "string \<rightharpoonup> string"
  source_url :: "string option"
  nodes_new :: "nat list"
  node_current_index :: nat
  fetched :: "string list"
  stdout :: "(string \<times> nat \<times> nat) list"

definition prompt_line :: "string \<Rightarrow> string" where
  "prompt_line s = replicate 16 (CHR '' '') @ s @ [CHR 0x0A]"

text \<open>The f-string of \<open>__call__\<close>, with the two interpolated values as arguments.\<close>

definition prompt :: "string \<Rightarrow> string \<Rightarrow> string" where
  "prompt whole_document chunk_text =
     [CHR 0x0A]
     @ prompt_line ''## Here is the source document:''
     @ prompt_line ''<document>''
     @ prompt_line whole_document
     @ prompt_line ''</document>''
     @ prompt_line ''## Here is the chunk we want to situate within the whole document''
     @ prompt_line ''<chunk>''
     @ prompt_line chunk_text
     @ prompt_line ''</chunk>''
     @ prompt_line ''## Your role''
     @ prompt_line ''You are a financial document analysis specialist with expertise in annual shareholder letters,''
     @ prompt_line ''particularly those from Amazon.''
     @ prompt_line ''## Your Task''
     @ prompt_line ''Your task is to analyze the <chunk> from an Amazon shareholder''
     @ prompt_line ''letter written by Amazon CEO and enhance its searchability and context.''
     @ prompt_line ''Please give a short succinct context to situate this chunk within the overall document for the purposes of improving search retrieval of the chunk. ''
     @ prompt_line ''Answer only with the succinct context and nothing else.''
     @ replicate 12 (CHR '' '')"

text \<open>
  The inner loop \<open>for r in new_node.relationships\<close>. For the key \<open>SOURCE\<close> it binds
  \<open>source_url\<close> and, when the URL is not yet a key of \<open>web_page_content\<close>, fetches the
  page and stores first its raw text, then the converted text. The result is the exception
  that left the loop, if any, and the state reached.
\<close>

fun relationships_loop ::
    "enrich_env \<Rightarrow> (node_relationship \<times> string) list \<Rightarrow> enrich_state \<Rightarrow> error option \<times> enrich_state" where
  "relationships_loop env [] s = (None, s)"
| "relationships_loop env ((r, related) # rs) s =
     (if r = SOURCE then
        (let s1 = s\<lparr>source_url := Some related\<rparr> in
         case web_page_content s1 related of
           Some _ \<Rightarrow> relationships_loop env rs s1
         | None \<Rightarrow>
             (let s2 = s1\<lparr>fetched := fetched s1 @ [related]\<rparr> in
              case requests_get env related of
                Inl e \<Rightarrow> (Some e, s2)
              | Inr raw \<Rightarrow>
                  relationships_loop env rs
                    (s2\<lparr>web_page_content :=
                          ((web_page_content s2)(related \<mapsto> raw))(related \<mapsto> html2text env raw)\<rparr>)))
      else relationships_loop env rs s)"

text \<open>
  The body of the outer loop for the node at address \<open>a\<close>. \<open>copy.deepcopy(node)\<close>
  allocates a new object with the contents of the old one; the metadata assignment writes
  into the new object.
\<close>

definition enrich_node :: "enrich_env \<Rightarrow> nat \<Rightarrow> nat \<Rightarrow> enrich_state \<Rightarrow> error option \<times> enrich_state" where
  "enrich_node env node_total a s =
     (let s0 = s\<lparr>stdout := stdout s @ [(node_id (heap s ! a), node_current_index s, node_total)]\<rparr>;
          new_node = length (heap s0);
          s1 = s0\<lparr>heap := heap s0 @ [heap s0 ! a]\<rparr>
      in case relationships_loop env (relationships (heap s1 ! new_node)) s1 of
           (Some e, s2) \<Rightarrow> (Some e, s2)
         | (None, s2) \<Rightarrow>
             (case source_url s2 of
                None \<Rightarrow> (Some (UnboundLocalError ''source_url''), s2)
              | Some url \<Rightarrow>
                  (case web_page_content s2 url of
                     None \<Rightarrow> (Some (KeyError url), s2)
                   | Some whole_document \<Rightarrow>
                       (case llm_complete env (prompt whole_document (node_text (heap s2 ! new_node))) of
                          Inl e \<Rightarrow> (Some e, s2)
                        | Inr completion \<Rightarrow>
                            (None,
                             s2\<lparr>heap := (heap s2)[new_node := (heap s2 ! new_node)
                                           \<lparr>metadata := (metadata (heap s2 ! new_node))(''context'' \<mapsto> Str completion)\<rparr>],
                                nodes_new := nodes_new s2 @ [new_node],
                                node_current_index := node_current_index s2 + 1\<rparr>)))))"

text \<open>The outer loop \<open>for node in nodes\<close>: an exception ends it.\<close>

fun nodes_loop ::
    "enrich_env \<Rightarrow> nat \<Rightarrow> nat list \<Rightarrow> enrich_state \<Rightarrow> error option \<times> enrich_state" where
  "nodes_loop env node_total [] s = (None, s)"
| "nodes_loop env node_total (a # as) s =
     (case enrich_node env node_total a s of
        (Some e, s') \<Rightarrow> (Some e, s')
      | (None, s') \<Rightarrow> nodes_loop env node_total as s')"

definition init_state :: "text_node list \<Rightarrow> enrich_state" where
  "init_state h =
     \<lparr>heap = h, web_page_content = Map.empty, source_url = None, nodes_new = [],
      node_current_index = 1, fetched = [], stdout = []\<rparr>"

text \<open>
  \<open>__call__\<close> on the heap \<open>h\<close> and the list \<open>nodes\<close> of addresses: the list returned
  (or the exception raised) and the final state.
\<close>

definition enrichment_call ::
    "enrich_env \<Rightarrow> text_node list \<Rightarrow> nat list \<Rightarrow> (error + nat list) \<times> enrich_state" where
  "enrichment_call env h nodes =
     (case nodes_loop env (length nodes) nodes (init_state h) of
        (Some e, s) \<Rightarrow> (Inl e, s)
      | (None, s) \<Rightarrow> (Inr (nodes_new s), s))"

section \<open>The evaluation table\<close>

text \<open>
  An evaluation result, of which the function reads \<open>metric_vals_dict\<close>: the score of
  each metric the evaluator was configured with. The scores are Python floats; their type
  is the parameter \<open>'f\<close>, and no arithmetic on them is modelled.
\<close>

record 'f retrieval_eval_result =
  metric_vals_dict :: "string \<rightharpoonup> 'f"

text \<open>A cell of the returned DataFrame: a string or a float.\<close>

datatype 'f cell = Text string | Float 'f

text \<open>
  pandas, as far as the function uses it. \<open>pd.DataFrame(metric_dicts)\<close> has a column for
  each key of some dictionary and a missing cell where a dictionary lacks the key;
  \<open>full_df[k]\<close> raises \<open>KeyError\<close> when there is no such column.
\<close>

definition df_column :: "(string \<rightharpoonup> 'f) list \<Rightarrow> string \<Rightarrow> error + 'f option list" where
  "df_column metric_dicts k =
     (if list_ex (\<lambda>d. d k \<noteq> None) metric_dicts
      then Inr (map (\<lambda>d. d k) metric_dicts)
      else Inl (KeyError k))"

text \<open>
  The dictionary comprehension \<open>{k: [full_df[k].mean()] for k in ...}\<close>. The method
  \<open>mean()\<close> of a pandas column, which the notebook calls and does not define, is the
  parameter \<open>series_mean\<close>: it is given the column, missing cells included, and computes in
  binary64 arithmetic whatever pandas computes.
\<close>

fun mean_columns ::
    "('f option list \<Rightarrow> 'f) \<Rightarrow> (string \<rightharpoonup> 'f) list \<Rightarrow> string list
     \<Rightarrow> error + (string \<times> 'f cell list) list" where
  "mean_columns series_mean metric_dicts [] = Inr []"
| "mean_columns series_mean metric_dicts (k # ks) =
     (case df_column metric_dicts k of
        Inl e \<Rightarrow> Inl e
      | Inr col \<Rightarrow>
          (case mean_columns series_mean metric_dicts ks of
             Inl e \<Rightarrow> Inl e
           | Inr rest \<Rightarrow> Inr ((k, [Float (series_mean col)]) # rest)))"

text \<open>
  The returned DataFrame as the list of its columns, each with its cells. The names in
  \<open>LLAMA_INDEX_RETRIEVAL_EVALUATION_METRICS\<close> differ from each other and from
  \<open>retrievers\<close>, so no column overwrites another. The parameter \<open>metrics\<close> is not read.
\<close>

definition llama_index_evaluation_print_results ::
    "('f option list \<Rightarrow> 'f) \<Rightarrow> string \<Rightarrow> 'f retrieval_eval_result list \<Rightarrow> string list
     \<Rightarrow> error + (string \<times> 'f cell list) list" where
  "llama_index_evaluation_print_results series_mean name eval_results metrics =
     (let metric_dicts = map metric_vals_dict eval_results
      in case mean_columns series_mean metric_dicts LLAMA_INDEX_RETRIEVAL_EVALUATION_METRICS of
           Inl e \<Rightarrow> Inl e
         | Inr cols \<Rightarrow> Inr ((''retrievers'', [Text name]) # cols))"

section \<open>Auxiliary notions\<close>

text \<open>
  What holds of the cache between two steps of a run that has not raised: every URL was
  fetched once, the keys of the cache are the URLs fetched, each entry is the converted
  text of the page fetched, and a bound \<open>source_url\<close> is a key of the cache.
\<close>

definition cache_inv :: "enrich_env \<Rightarrow> enrich_state \<Rightarrow> bool" where
  "cache_inv env s \<longleftrightarrow>
     distinct (fetched s)
     \<and> set (fetched s) = dom (web_page_content s)
     \<and> (\<forall>u d. web_page_content s u = Some d \<longrightarrow>
           (\<exists>raw. requests_get env u = Inr raw \<and> d = html2text env raw))
     \<and> (\<forall>u. source_url s = Some u \<longrightarrow> u \<in> dom (web_page_content s))"

text \<open>
  Python's \<open>str.strip()\<close>, as the specification uses the word "trimmed"; the notebook
  does not call it.
\<close>

definition is_space :: "char \<Rightarrow> bool" where
  "is_space c \<longleftrightarrow> List.member [CHR '' '', CHR 0x09, CHR 0x0A, CHR 0x0B, CHR 0x0C, CHR 0x0D] c"

definition strip :: "string \<Rightarrow> string" where
  "strip s = rev (dropWhile is_space (rev (dropWhile is_space s)))"

section \<open>Example inputs\<close>

definition chunk_a :: text_node where
  "chunk_a = \<lparr>node_id = ''a'', node_text = ''alpha'', metadata = Map.empty,
              relationships = [(SOURCE, ''u1'')]\<rparr>"

definition chunk_b :: text_node where
  "chunk_b = \<lparr>node_id = ''b'', node_text = ''beta'', metadata = Map.empty,
              relationships = [(PREVIOUS, ''a''), (SOURCE, ''u1'')]\<rparr>"

definition chunk_c :: text_node where
  "chunk_c = \<lparr>node_id = ''c'', node_text = ''gamma'', metadata = Map.empty,
              relationships = [(SOURCE, ''u2'')]\<rparr>"

definition chunk_orphan :: text_node where
  "chunk_orphan = \<lparr>node_id = ''o'', node_text = ''omega'', metadata = Map.empty,
                   relationships = [(PREVIOUS, ''a'')]\<rparr>"

text \<open>A web where every page loads, and models answering with a fixed text.\<close>

definition page :: "string \<Rightarrow> string" where
  "page u = ''<p>'' @ u"

definition env_reply :: "string \<Rightarrow> enrich_env" where
  "env_reply answer =
     \<lparr>requests_get = (\<lambda>u. Inr (page u)), html2text = drop 3,
      llm_complete = (\<lambda>p. Inr answer)\<rparr>"

definition env_empty_reply :: enrich_env where
  "env_empty_reply = env_reply []"

definition env_padded_reply :: enrich_env where
  "env_padded_reply = env_reply '' ctx ''"

text \<open>A model that answers with the prompt it was given.\<close>

definition env_echo :: enrich_env where
  "env_echo =
     \<lparr>requests_get = (\<lambda>u. Inr (page u)), html2text = drop 3,
      llm_complete = (\<lambda>p. Inr p)\<rparr>"

text \<open>A web where the page \<open>u2\<close> cannot be fetched.\<close>

definition env_u2_down :: enrich_env where
  "env_u2_down =
     \<lparr>requests_get = (\<lambda>u. if u = ''u2'' then Inl (FetchError u) else Inr (page u)),
      html2text = drop 3,
      llm_complete = (\<lambda>p. Inr ''ctx'')\<rparr>"

definition scored :: "text_node \<Rightarrow> rat \<Rightarrow> node_with_score" where
  "scored n x = \<lparr>node = n, score = x\<rparr>"

definition example_sim :: "string \<Rightarrow> string \<Rightarrow> rat" where
  "example_sim q t = (if t = ''alpha'' then 1 else 2)"

definition example_retriever :: hybrid_retriever where
  "example_retriever =
     \<lparr>vector_retriever = (\<lambda>q. Inr [scored chunk_a 9, scored chunk_b 8, scored chunk_c 7]),
      bm25_retriever = (\<lambda>q. Inr [scored chunk_b 3, scored chunk_c 2, scored chunk_a 1]),
      reranker = postprocess_nodes example_sim colbert_reranker\<rparr>"





text \<open>
  Evaluation results with floats that binary64 represents exactly, and the values pandas'
  \<open>mean()\<close> returns on the columns they make: 0.6666666666666666 for (1, 0, 1) and
  0.3333333333333333 for (0.5, 0, 0.5).
\<close>

definition result_all :: "rat retrieval_eval_result" where
  "result_all = \<lparr>metric_vals_dict = [''hit_rate'' \<mapsto> 1, ''mrr'' \<mapsto> 1 / 2, ''recall'' \<mapsto> 1]\<rparr>"

definition result_none :: "rat retrieval_eval_result" where
  "result_none = \<lparr>metric_vals_dict = [''hit_rate'' \<mapsto> 0, ''mrr'' \<mapsto> 0, ''recall'' \<mapsto> 0]\<rparr>"


definition example_series_mean :: "rat option list \<Rightarrow> rat" where
  "example_series_mean col =
     (if col = [Some 1, Some 0, Some 1] then 6004799503160661 / 9007199254740992
      else if col = [Some (1 / 2), Some 0, Some (1 / 2)] then 6004799503160661 / 18014398509481984
      else if col = [Some 1] then 1
      else 0)"

section \<open>Sorting lemmas\<close>

lemma score_rescore: "score (rescore sim cfg q n) = sim q (node_text (node n))"
  by (simp add: rescore_def)

lemma sorted_wrt_take_ge:
  "sorted_wrt P xs \<Longrightarrow> sorted_wrt P (take k xs)"
proof (induction xs arbitrary: k)
  case Nil
  then show ?case by simp
next
  case (Cons x xs)
  show ?case
  proof (cases k)
    case 0
    then show ?thesis by simp
  next
    case (Suc j)
    have "\<forall>y\<in>set (take j xs). P x y"
      using Cons.prems by (auto dest: in_set_takeD)
    moreover have "sorted_wrt P (take j xs)"
      using Cons.IH Cons.prems by simp
    ultimately show ?thesis using Suc by simp
  qed
qed

lemma sort_key_neg_descending:
  fixes f :: "'a \<Rightarrow> rat"
  shows "sorted_wrt (\<lambda>a b. f b \<le> f a) (sort_key (\<lambda>n. - f n) xs)"
proof -
  have "sorted (map (\<lambda>n. - f n) (sort_key (\<lambda>n. - f n) xs))"
    by (rule sorted_sort_key)
  then show ?thesis
    by (simp add: sorted_map sorted_wrt_iff_nth_less)
qed

lemma sort_key_neg_stable:
  fixes f :: "'a \<Rightarrow> rat"
  shows "filter (\<lambda>n. f n = s) (sort_key (\<lambda>n. - f n) xs) = filter (\<lambda>n. f n = s) xs"
proof -
  have "filter (\<lambda>n. - f n = - s) (sort_key (\<lambda>n. - f n) xs) = filter (\<lambda>n. - f n = - s) xs"
    by (rule sort_key_stable)
  then show ?thesis by simp
qed

section \<open>Invariants of the enrichment run\<close>

lemma relationships_loop_frame:
  "relationships_loop env rs s = (r, s') \<Longrightarrow>
     heap s' = heap s \<and> nodes_new s' = nodes_new s
     \<and> node_current_index s' = node_current_index s \<and> stdout s' = stdout s"
proof (induction rs arbitrary: s)
  case Nil
  then show ?case by simp
next
  case (Cons p rs)
  obtain k u where p: "p = (k, u)" by (cases p)
  show ?case using Cons.prems Cons.IH unfolding p
    by (auto simp: Let_def split: if_splits option.splits sum.splits)
qed

lemma relationships_loop_inv:
  "cache_inv env s \<Longrightarrow> relationships_loop env rs s = (r, s') \<Longrightarrow>
     distinct (fetched s')
     \<and> (r = None \<longrightarrow> cache_inv env s')
     \<and> (\<forall>u d. web_page_content s u = Some d \<longrightarrow> web_page_content s' u = Some d)"
proof (induction rs arbitrary: s)
  case Nil
  then show ?case by (simp add: cache_inv_def)
next
  case (Cons p rs)
  obtain k u where p: "p = (k, u)" by (cases p)
  show ?case
  proof (cases "k = SOURCE")
    case False
    then show ?thesis using Cons.prems Cons.IH[of s] unfolding p by simp
  next
    case src: True
    show ?thesis
    proof (cases "web_page_content s u")
      case (Some d)
      let ?s1 = "s\<lparr>source_url := Some u\<rparr>"
      have inv1: "cache_inv env ?s1"
        using Cons.prems(1) Some by (auto simp: cache_inv_def)
      have run: "relationships_loop env rs ?s1 = (r, s')"
        using Cons.prems(2) Some src unfolding p by (simp add: Let_def)
      show ?thesis using Cons.IH[OF inv1 run] by simp
    next
      case None
      let ?s2 = "s\<lparr>source_url := Some u, fetched := fetched s @ [u]\<rparr>"
      have fresh: "u \<notin> set (fetched s)"
        using Cons.prems(1) None by (auto simp: cache_inv_def)
      show ?thesis
      proof (cases "requests_get env u")
        case (Inl e)
        then have "s' = ?s2"
          using Cons.prems(2) None src unfolding p by (simp add: Let_def)
        then show ?thesis
          using Cons.prems(1) fresh Inl None src Cons.prems(2) unfolding p
          by (auto simp: cache_inv_def Let_def)
      next
        case (Inr raw)
        let ?s3 = "?s2\<lparr>web_page_content :=
                     ((web_page_content ?s2)(u \<mapsto> raw))(u \<mapsto> html2text env raw)\<rparr>"
        have inv3: "cache_inv env ?s3"
          using Cons.prems(1) fresh Inr by (auto simp: cache_inv_def)
        have run: "relationships_loop env rs ?s3 = (r, s')"
          using Cons.prems(2) None src Inr unfolding p by (simp add: Let_def)
        have "\<forall>v d. web_page_content s v = Some d \<longrightarrow> web_page_content ?s3 v = Some d"
          using None by auto
        then show ?thesis using Cons.IH[OF inv3 run] by blast
      qed
    qed
  qed
qed


lemma relationships_loop_no_source:
  "SOURCE \<notin> fst ` set rs \<Longrightarrow> relationships_loop env rs s = (None, s)"
  by (induction rs arbitrary: s) auto

lemma relationships_loop_keeps:
  "source_url s \<noteq> None \<Longrightarrow> relationships_loop env rs s = (r, s') \<Longrightarrow> source_url s' \<noteq> None"
proof (induction rs arbitrary: s)
  case Nil
  then show ?case by simp
next
  case (Cons p rs)
  obtain k u where p: "p = (k, u)" by (cases p)
  show ?case
  proof (cases "k = SOURCE")
    case False
    then show ?thesis using Cons.prems Cons.IH[of s] unfolding p by simp
  next
    case True
    show ?thesis
    proof (cases "web_page_content s u")
      case (Some d)
      then have "relationships_loop env rs (s\<lparr>source_url := Some u\<rparr>) = (r, s')"
        using Cons.prems(2) True unfolding p by (simp add: Let_def)
      then show ?thesis using Cons.IH[of "s\<lparr>source_url := Some u\<rparr>"] by simp
    next
      case None
      show ?thesis
      proof (cases "requests_get env u")
        case (Inl e)
        then show ?thesis using Cons.prems(2) True None unfolding p by (auto simp: Let_def)
      next
        case (Inr raw)
        let ?s3 = "s\<lparr>source_url := Some u, fetched := fetched s @ [u],
                     web_page_content := (web_page_content s)(u \<mapsto> html2text env raw)\<rparr>"
        have "relationships_loop env rs ?s3 = (r, s')"
          using Cons.prems(2) True None Inr unfolding p by (simp add: Let_def)
        then show ?thesis using Cons.IH[of ?s3] by simp
      qed
    qed
  qed
qed

lemma relationships_loop_binds:
  "SOURCE \<in> fst ` set rs \<Longrightarrow> relationships_loop env rs s = (None, s') \<Longrightarrow> source_url s' \<noteq> None"
proof (induction rs arbitrary: s)
  case Nil
  then show ?case by simp
next
  case (Cons p rs)
  obtain k u where p: "p = (k, u)" by (cases p)
  show ?case
  proof (cases "k = SOURCE")
    case False
    then show ?thesis using Cons.prems Cons.IH[of s] unfolding p by auto
  next
    case True
    show ?thesis
    proof (cases "web_page_content s u")
      case (Some d)
      then have "relationships_loop env rs (s\<lparr>source_url := Some u\<rparr>) = (None, s')"
        using Cons.prems(2) True unfolding p by (simp add: Let_def)
      then show ?thesis using relationships_loop_keeps[of "s\<lparr>source_url := Some u\<rparr>"] by simp
    next
      case None
      show ?thesis
      proof (cases "requests_get env u")
        case (Inl e)
        then show ?thesis using Cons.prems(2) True None unfolding p by (auto simp: Let_def)
      next
        case (Inr raw)
        let ?s3 = "s\<lparr>source_url := Some u, fetched := fetched s @ [u],
                     web_page_content := (web_page_content s)(u \<mapsto> html2text env raw)\<rparr>"
        have "relationships_loop env rs ?s3 = (None, s')"
          using Cons.prems(2) True None Inr unfolding p by (simp add: Let_def)
        then show ?thesis using relationships_loop_keeps[of ?s3] by simp
      qed
    qed
  qed
qed

lemma relationships_loop_total:
  "\<forall>u. \<exists>raw. requests_get env u = Inr raw \<Longrightarrow> \<exists>s'. relationships_loop env rs s = (None, s')"
proof (induction rs arbitrary: s)
  case Nil
  then show ?case by simp
next
  case (Cons p rs)
  obtain k u where p: "p = (k, u)" by (cases p)
  obtain raw where raw: "requests_get env u = Inr raw" using Cons.prems by blast
  show ?case unfolding p using Cons.IH[OF Cons.prems] raw
    by (simp add: Let_def split: option.splits)
qed

text \<open>What one iteration of the outer loop does to the state.\<close>

lemma enrich_node_raises:
  assumes "enrich_node env t a s = (Some e, s')"
  shows "heap s' = heap s @ [heap s ! a] \<and> nodes_new s' = nodes_new s"
proof -
  let ?s1 = "s\<lparr>stdout := stdout s @ [(node_id (heap s ! a), node_current_index s, t)],
               heap := heap s @ [heap s ! a]\<rparr>"
  obtain r s2 where run: "relationships_loop env (relationships (heap ?s1 ! length (heap s))) ?s1 = (r, s2)"
    by (cases "relationships_loop env (relationships (heap ?s1 ! length (heap s))) ?s1")
  have fr: "heap s2 = heap ?s1 \<and> nodes_new s2 = nodes_new ?s1"
    using relationships_loop_frame[OF run] by simp
  have "s' = s2"
    using assms run unfolding enrich_node_def
    by (auto simp: Let_def split: option.splits sum.splits)
  then show ?thesis using fr by simp
qed

lemma enrich_node_returns:
  assumes "enrich_node env t a s = (None, s')"
  shows "\<exists>url doc c.
           web_page_content s' url = Some doc
           \<and> llm_complete env (prompt doc (node_text (heap s ! a))) = Inr c
           \<and> heap s' = heap s @ [(heap s ! a)\<lparr>metadata := (metadata (heap s ! a))(''context'' \<mapsto> Str c)\<rparr>]
           \<and> nodes_new s' = nodes_new s @ [length (heap s)]"
proof -
  let ?s1 = "s\<lparr>stdout := stdout s @ [(node_id (heap s ! a), node_current_index s, t)],
               heap := heap s @ [heap s ! a]\<rparr>"
  obtain r s2 where run: "relationships_loop env (relationships (heap ?s1 ! length (heap s))) ?s1 = (r, s2)"
    by (cases "relationships_loop env (relationships (heap ?s1 ! length (heap s))) ?s1")
  have fr: "heap s2 = heap s @ [heap s ! a]" "nodes_new s2 = nodes_new s"
    using relationships_loop_frame[OF run] by simp_all
  from assms run obtain url doc c where
        u: "source_url s2 = Some url" and d: "web_page_content s2 url = Some doc"
    and c: "llm_complete env (prompt doc (node_text (heap s2 ! length (heap s)))) = Inr c"
    and s': "s' = s2\<lparr>heap := (heap s2)[length (heap s) := (heap s2 ! length (heap s))
                         \<lparr>metadata := (metadata (heap s2 ! length (heap s)))(''context'' \<mapsto> Str c)\<rparr>],
                     nodes_new := nodes_new s2 @ [length (heap s)],
                     node_current_index := node_current_index s2 + 1\<rparr>"
    unfolding enrich_node_def
    by (auto simp: Let_def split: option.splits sum.splits)
  have "web_page_content s' url = Some doc" using s' d by simp
  moreover have "llm_complete env (prompt doc (node_text (heap s ! a))) = Inr c"
    using c fr by simp
  moreover have "heap s' = heap s @ [(heap s ! a)\<lparr>metadata := (metadata (heap s ! a))(''context'' \<mapsto> Str c)\<rparr>]"
    using s' fr by simp
  moreover have "nodes_new s' = nodes_new s @ [length (heap s)]"
    using s' fr by simp
  ultimately show ?thesis by blast
qed

lemma enrich_node_inv:
  assumes "cache_inv env s" "enrich_node env t a s = (r, s')"
  shows "distinct (fetched s')
         \<and> (r = None \<longrightarrow> cache_inv env s')
         \<and> (\<forall>u d. web_page_content s u = Some d \<longrightarrow> web_page_content s' u = Some d)"
proof -
  let ?s1 = "s\<lparr>stdout := stdout s @ [(node_id (heap s ! a), node_current_index s, t)],
               heap := heap s @ [heap s ! a]\<rparr>"
  obtain r2 s2 where run: "relationships_loop env (relationships (heap ?s1 ! length (heap s))) ?s1 = (r2, s2)"
    by (cases "relationships_loop env (relationships (heap ?s1 ! length (heap s))) ?s1")
  have inv1: "cache_inv env ?s1" using assms(1) by (simp add: cache_inv_def)
  note li = relationships_loop_inv[OF inv1 run]
  show ?thesis
  proof (cases r2)
    case (Some e)
    then have "s' = s2" using assms(2) run unfolding enrich_node_def by (simp add: Let_def)
    moreover have "r \<noteq> None" using assms(2) run Some unfolding enrich_node_def by (auto simp: Let_def)
    ultimately show ?thesis using li by auto
  next
    case None
    then have inv2: "cache_inv env s2" using li by simp
    have same: "fetched s' = fetched s2 \<and> web_page_content s' = web_page_content s2 \<and> source_url s' = source_url s2"
      using assms(2) run None unfolding enrich_node_def
      by (auto simp: Let_def split: option.splits sum.splits)
    then have "cache_inv env s'" using inv2 by (simp add: cache_inv_def)
    then show ?thesis using li same by (simp add: cache_inv_def)
  qed
qed


lemma init_state_inv: "cache_inv env (init_state h)"
  by (simp add: cache_inv_def init_state_def)

lemma nodes_loop_inv:
  "cache_inv env s \<Longrightarrow> nodes_loop env t as s = (r, s') \<Longrightarrow>
     distinct (fetched s')
     \<and> (r = None \<longrightarrow> cache_inv env s')
     \<and> (\<forall>u d. web_page_content s u = Some d \<longrightarrow> web_page_content s' u = Some d)"
proof (induction as arbitrary: s)
  case Nil
  then show ?case by (simp add: cache_inv_def)
next
  case (Cons a as)
  obtain r1 s1 where step: "enrich_node env t a s = (r1, s1)"
    by (cases "enrich_node env t a s")
  note ei = enrich_node_inv[OF Cons.prems(1) step]
  show ?case
  proof (cases r1)
    case (Some e)
    then have "r = Some e" "s' = s1" using Cons.prems(2) step by simp_all
    then show ?thesis using ei by simp
  next
    case None
    then have run: "nodes_loop env t as s1 = (r, s')" using Cons.prems(2) step by simp
    have inv1: "cache_inv env s1" using ei None by simp
    show ?thesis using Cons.IH[OF inv1 run] ei by blast
  qed
qed

lemma nodes_loop_heap_grows:
  "nodes_loop env t as s = (r, s') \<Longrightarrow> take (length (heap s)) (heap s') = heap s"
proof (induction as arbitrary: s)
  case Nil
  then show ?case by simp
next
  case (Cons a as)
  obtain r1 s1 where step: "enrich_node env t a s = (r1, s1)"
    by (cases "enrich_node env t a s")
  have h1: "\<exists>n. heap s1 = heap s @ [n]"
  proof (cases r1)
    case None
    then show ?thesis using enrich_node_returns[of env t a s s1] step by auto
  next
    case (Some e)
    then show ?thesis using enrich_node_raises[of env t a s e s1] step by auto
  qed
  show ?case
  proof (cases r1)
    case (Some e)
    then have "s' = s1" using Cons.prems step by simp
    then show ?thesis using h1 by auto
  next
    case None
    then have run: "nodes_loop env t as s1 = (r, s')" using Cons.prems step by simp
    have "take (length (heap s1)) (heap s') = heap s1" using Cons.IH[OF run] .
    then have "take (length (heap s)) (take (length (heap s1)) (heap s')) = take (length (heap s)) (heap s1)"
      by simp
    then show ?thesis using h1 by auto
  qed
qed

lemma nodes_loop_returns:
  "cache_inv env s \<Longrightarrow> nodes_loop env t as s = (None, s') \<Longrightarrow>
   \<forall>a\<in>set as. a < length (heap s) \<Longrightarrow>
     length (heap s') = length (heap s) + length as
     \<and> nodes_new s' = nodes_new s @ [length (heap s) ..< length (heap s) + length as]
     \<and> (\<forall>i<length as. \<exists>url doc c.
           web_page_content s' url = Some doc
           \<and> llm_complete env (prompt doc (node_text (heap s ! (as ! i)))) = Inr c
           \<and> heap s' ! (length (heap s) + i) =
               (heap s ! (as ! i))\<lparr>metadata := (metadata (heap s ! (as ! i)))(''context'' \<mapsto> Str c)\<rparr>)"
proof (induction as arbitrary: s)
  case Nil
  then show ?case by simp
next
  case (Cons a as)
  obtain r1 s1 where step: "enrich_node env t a s = (r1, s1)"
    by (cases "enrich_node env t a s")
  have r1: "r1 = None" using Cons.prems(2) step by (cases r1) auto
  then have run: "nodes_loop env t as s1 = (None, s')" using Cons.prems(2) step by simp
  have step': "enrich_node env t a s = (None, s1)" using step r1 by simp
  obtain url doc c where
        d: "web_page_content s1 url = Some doc"
    and c: "llm_complete env (prompt doc (node_text (heap s ! a))) = Inr c"
    and h1: "heap s1 = heap s @ [(heap s ! a)\<lparr>metadata := (metadata (heap s ! a))(''context'' \<mapsto> Str c)\<rparr>]"
    and n1: "nodes_new s1 = nodes_new s @ [length (heap s)]"
    using enrich_node_returns[OF step'] by blast
  have inv1: "cache_inv env s1" using enrich_node_inv[OF Cons.prems(1) step'] by simp
  have valid1: "\<forall>a\<in>set as. a < length (heap s1)" using Cons.prems(3) h1 by auto
  note ih = Cons.IH[OF inv1 run valid1]
  have mono: "\<forall>u d. web_page_content s1 u = Some d \<longrightarrow> web_page_content s' u = Some d"
    using nodes_loop_inv[OF inv1 run] by simp
  have grows: "take (length (heap s1)) (heap s') = heap s1"
    using nodes_loop_heap_grows[OF run] .
  have len: "length (heap s') = length (heap s) + length (a # as)"
    using ih h1 by simp
  have new: "nodes_new s' = nodes_new s @ [length (heap s) ..< length (heap s) + length (a # as)]"
  proof -
    have "nodes_new s' = nodes_new s @ length (heap s) # [Suc (length (heap s)) ..< Suc (length (heap s)) + length as]"
      using ih n1 h1 by simp
    moreover have "[length (heap s) ..< length (heap s) + length (a # as)]
                   = length (heap s) # [Suc (length (heap s)) ..< Suc (length (heap s)) + length as]"
      by (simp add: upt_conv_Cons del: upt_Suc)
    ultimately show ?thesis by simp
  qed
  have each: "\<exists>url doc c.
           web_page_content s' url = Some doc
           \<and> llm_complete env (prompt doc (node_text (heap s ! ((a # as) ! i)))) = Inr c
           \<and> heap s' ! (length (heap s) + i) =
               (heap s ! ((a # as) ! i))\<lparr>metadata := (metadata (heap s ! ((a # as) ! i)))(''context'' \<mapsto> Str c)\<rparr>"
    if i: "i < length (a # as)" for i
  proof (cases i)
    case 0
    have "heap s' ! length (heap s) = take (length (heap s1)) (heap s') ! length (heap s)"
      using h1 by simp
    also have "\<dots> = (heap s ! a)\<lparr>metadata := (metadata (heap s ! a))(''context'' \<mapsto> Str c)\<rparr>"
      unfolding grows using h1 by simp
    finally show ?thesis using 0 d c mono by auto
  next
    case (Suc j)
    then have j: "j < length as" using i by simp
    then have aj: "as ! j < length (heap s)" using Cons.prems(3) by simp
    have same: "heap s1 ! (as ! j) = heap s ! (as ! j)" using h1 aj by (simp add: nth_append)
    from ih j obtain url' doc' c' where
          "web_page_content s' url' = Some doc'"
      and "llm_complete env (prompt doc' (node_text (heap s1 ! (as ! j)))) = Inr c'"
      and "heap s' ! (length (heap s1) + j) =
             (heap s1 ! (as ! j))\<lparr>metadata := (metadata (heap s1 ! (as ! j)))(''context'' \<mapsto> Str c')\<rparr>"
      by blast
    then show ?thesis using Suc same h1 by auto
  qed
  show ?case using len new each by blast
qed

lemma enrich_node_total:
  assumes inv: "cache_inv env s"
    and src: "SOURCE \<in> fst ` set (relationships (heap s ! a))"
    and get: "\<forall>u. \<exists>raw. requests_get env u = Inr raw"
    and llm: "\<forall>p. \<exists>c. llm_complete env p = Inr c"
  shows "\<exists>s'. enrich_node env t a s = (None, s')"
proof -
  let ?s1 = "s\<lparr>stdout := stdout s @ [(node_id (heap s ! a), node_current_index s, t)],
               heap := heap s @ [heap s ! a]\<rparr>"
  let ?rs = "relationships (heap ?s1 ! length (heap s))"
  obtain s2 where run: "relationships_loop env ?rs ?s1 = (None, s2)"
    using relationships_loop_total[OF get] by blast
  have "SOURCE \<in> fst ` set ?rs" using src by simp
  then obtain url where u: "source_url s2 = Some url"
    using relationships_loop_binds[OF _ run] by blast
  have inv1: "cache_inv env ?s1" using inv by (simp add: cache_inv_def)
  have "cache_inv env s2" using relationships_loop_inv[OF inv1 run] by simp
  then obtain doc where d: "web_page_content s2 url = Some doc"
    using u by (auto simp: cache_inv_def)
  obtain c where c: "llm_complete env (prompt doc (node_text (heap s2 ! length (heap s)))) = Inr c"
    using llm by blast
  show ?thesis unfolding enrich_node_def using run u d c by (simp add: Let_def)
qed

lemma nodes_loop_total:
  assumes get: "\<forall>u. \<exists>raw. requests_get env u = Inr raw"
    and llm: "\<forall>p. \<exists>c. llm_complete env p = Inr c"
  shows "cache_inv env s \<Longrightarrow> \<forall>a\<in>set as. a < length (heap s) \<and> SOURCE \<in> fst ` set (relationships (heap s ! a))
         \<Longrightarrow> \<exists>s'. nodes_loop env t as s = (None, s')"
proof (induction as arbitrary: s)
  case Nil
  then show ?case by simp
next
  case (Cons a as)
  obtain s1 where step: "enrich_node env t a s = (None, s1)"
    using enrich_node_total[OF Cons.prems(1) _ get llm, of a t] Cons.prems(2) by auto
  have inv1: "cache_inv env s1" using enrich_node_inv[OF Cons.prems(1) step] by simp
  obtain n where h1: "heap s1 = heap s @ [n]" using enrich_node_returns[OF step] by blast
  have "\<forall>b\<in>set as. b < length (heap s1) \<and> SOURCE \<in> fst ` set (relationships (heap s1 ! b))"
    using Cons.prems(2) h1 by (auto simp: nth_append)
  from Cons.IH[OF inv1 this] obtain s' where "nodes_loop env t as s1 = (None, s')" by blast
  then show ?case using step by simp
qed

section \<open>The claims about the hybrid retriever\<close>

text \<open>
  C1. Whatever the query, \<open>_retrieve\<close> first calls the vector retriever; whatever list
  that call returns, it then calls the BM25 retriever; and once both have returned, it
  calls the reranker on the concatenation of the two lists (nothing removed) together with
  the query, and returns what the reranker returns, unchanged.
\<close>

theorem retrieve_runs_both_concatenates_and_reranks:
  "take 1 (snd (retrieve self q)) = [VectorRetrieve q]
   \<and> (vector_retriever self q = Inr vs \<longrightarrow>
        take 2 (snd (retrieve self q)) = [VectorRetrieve q, BM25Retrieve q])
   \<and> (vector_retriever self q = Inr vs \<and> bm25_retriever self q = Inr bs \<longrightarrow>
        retrieve self q =
          (reranker self (vs @ bs) q,
           [VectorRetrieve q, BM25Retrieve q, PostprocessNodes (vs @ bs) q]))"
  by (simp add: retrieve_def Let_def split: sum.split)

theorem retrieve_runs_both_concatenates_and_reranks_witness:
  "retrieve example_retriever ''q'' =
     (reranker example_retriever
        ([scored chunk_a 9, scored chunk_b 8, scored chunk_c 7]
         @ [scored chunk_b 3, scored chunk_c 2, scored chunk_a 1]) ''q'',
      [VectorRetrieve ''q'', BM25Retrieve ''q'',
       PostprocessNodes
         ([scored chunk_a 9, scored chunk_b 8, scored chunk_c 7]
          @ [scored chunk_b 3, scored chunk_c 2, scored chunk_a 1]) ''q''])"
proof -
  have v: "vector_retriever example_retriever ''q'' = Inr [scored chunk_a 9, scored chunk_b 8, scored chunk_c 7]"
    by (simp add: example_retriever_def)
  have b: "bm25_retriever example_retriever ''q'' = Inr [scored chunk_b 3, scored chunk_c 2, scored chunk_a 1]"
    by (simp add: example_retriever_def)
  show ?thesis
    using retrieve_runs_both_concatenates_and_reranks
            [of example_retriever "''q''" "[scored chunk_a 9, scored chunk_b 8, scored chunk_c 7]"
                "[scored chunk_b 3, scored chunk_c 2, scored chunk_a 1]"] v b
    by blast
qed

text \<open>
  C7. With the reranker the notebook configures (\<open>top_n\<close> is
  \<open>LLAMA_INDEX_RETRIEVAL_TOP_K\<close>, that is 5), once both sub-retrievers have returned,
  \<open>_retrieve\<close> returns a list of at most five results whose scores do not increase from
  one element to the next, and results of equal score keep the order they had in the
  concatenated candidate list.
\<close>

theorem retrieve_top_n_descending_stable:
  assumes "reranker self = postprocess_nodes sim colbert_reranker"
    and "vector_retriever self q = Inr vs"
    and "bm25_retriever self q = Inr bs"
  shows "\<exists>out. fst (retrieve self q) = Inr out
           \<and> length out \<le> LLAMA_INDEX_RETRIEVAL_TOP_K
           \<and> sorted_wrt (\<lambda>a b. score b \<le> score a) out
           \<and> (\<forall>x. prefix (filter (\<lambda>n. score n = x) out)
                         (filter (\<lambda>n. score n = x) (map (rescore sim colbert_reranker q) (vs @ bs))))"
proof -
  let ?cands = "map (rescore sim colbert_reranker q) (vs @ bs)"
  let ?sorted = "sort_key (\<lambda>n. - score n) ?cands"
  let ?out = "take LLAMA_INDEX_RETRIEVAL_TOP_K ?sorted"
  have res: "fst (retrieve self q) = Inr ?out"
    using assms by (simp add: retrieve_def postprocess_nodes_def colbert_reranker_def)
  have len: "length ?out \<le> LLAMA_INDEX_RETRIEVAL_TOP_K" by simp
  have desc: "sorted_wrt (\<lambda>a b. score b \<le> score a) ?out"
    by (rule sorted_wrt_take_ge) (rule sort_key_neg_descending)
  have stable: "prefix (filter (\<lambda>n. score n = x) ?out) (filter (\<lambda>n. score n = x) ?cands)" for x
  proof -
    have "prefix (filter (\<lambda>n. score n = x) ?out) (filter (\<lambda>n. score n = x) ?sorted)"
      by (rule filter_mono_prefix) (rule take_is_prefix)
    then show ?thesis by (simp only: sort_key_neg_stable)
  qed
  show ?thesis using res len desc stable by blast
qed

text \<open>
  Six candidates, five of them rescored to 2 and one to 1: five results come back; the four
  ties stand in candidate order (the metadata entry \<open>retrieval_score\<close> tells the
  duplicates apart).
\<close>

theorem retrieve_top_n_descending_stable_witness:
  "map (\<lambda>n. node_id (node n)) (projr (fst (retrieve example_retriever ''q''))) = [''b'', ''c'', ''b'', ''c'', ''a'']
   \<and> map score (projr (fst (retrieve example_retriever ''q''))) = [2, 2, 2, 2, 1]
   \<and> map (\<lambda>n. metadata (node n) ''retrieval_score'') (projr (fst (retrieve example_retriever ''q'')))
       = [Some (Num 8), Some (Num 7), Some (Num 3), Some (Num 2), Some (Num 9)]"
proof -
  have r: "reranker example_retriever = postprocess_nodes example_sim colbert_reranker"
    by (simp add: example_retriever_def)
  have v: "vector_retriever example_retriever ''q'' = Inr [scored chunk_a 9, scored chunk_b 8, scored chunk_c 7]"
    by (simp add: example_retriever_def)
  have b: "bm25_retriever example_retriever ''q'' = Inr [scored chunk_b 3, scored chunk_c 2, scored chunk_a 1]"
    by (simp add: example_retriever_def)
  from retrieve_top_n_descending_stable[OF r v b]
  obtain out where out: "fst (retrieve example_retriever ''q'') = Inr out"
    and "length out \<le> LLAMA_INDEX_RETRIEVAL_TOP_K" by blast
  have "out = take 5 (sort_key (\<lambda>n. - score n) (map (rescore example_sim colbert_reranker ''q'')
           ([scored chunk_a 9, scored chunk_b 8, scored chunk_c 7] @ [scored chunk_b 3, scored chunk_c 2, scored chunk_a 1])))"
    using out v b r by (simp add: retrieve_def postprocess_nodes_def colbert_reranker_def LLAMA_INDEX_RETRIEVAL_TOP_K_def)
  then show ?thesis using out
    by (simp add: rescore_def scored_def example_sim_def colbert_reranker_def
                  chunk_a_def chunk_b_def chunk_c_def)
qed

text \<open>
  With collaborators that put every answer into a new list, \<open>_retrieve\<close> on the store
  returns what \<open>retrieve\<close> returns, from any store.
\<close>

lemma retrieve_obj_with_new_lists:
  "ranked (retrieve_obj (with_new_lists p) q st) = fst (retrieve p q)"
proof (cases "vector_retriever p q")
  case (Inl e)
  then show ?thesis
    by (simp add: retrieve_obj_def with_new_lists_def new_list_def retrieve_def ranked_def)
next
  case vs: (Inr vs)
  show ?thesis
  proof (cases "bm25_retriever p q")
    case (Inl e)
    then show ?thesis using vs
      by (simp add: retrieve_obj_def with_new_lists_def new_list_def retrieve_def ranked_def)
  next
    case bs: (Inr bs)
    have upd: "(st @ [vs, bs])[length st := vs @ bs] = st @ [vs @ bs, bs]"
      by (simp add: list_update_append)
    show ?thesis
    proof (cases "reranker p (vs @ bs) q")
      case (Inl e)
      then show ?thesis using vs bs upd
        by (simp add: retrieve_obj_def with_new_lists_def new_list_def retrieve_def ranked_def
                      nth_append Let_def)
    next
      case (Inr ys)
      then show ?thesis using vs bs upd
        by (simp add: retrieve_obj_def with_new_lists_def new_list_def retrieve_def ranked_def
                      nth_append Let_def)
    qed
  qed
qed




section \<open>The claims about the evaluation table\<close>



lemma mean_columns_names:
  "mean_columns m ds ks = Inr cols \<Longrightarrow> map fst cols = ks"
  by (induction ks arbitrary: cols) (auto split: sum.splits)





text \<open>
  C10. The argument \<open>metrics\<close> has no effect: the function returns what it returns
  for the global list, and the metric columns of a returned table are always
  \<open>hit_rate\<close>, \<open>mrr\<close> and \<open>recall\<close>.
\<close>

theorem print_results_ignores_metrics:
  "llama_index_evaluation_print_results series_mean name eval_results metrics
     = llama_index_evaluation_print_results series_mean name eval_results
         LLAMA_INDEX_RETRIEVAL_EVALUATION_METRICS
   \<and> (\<forall>df. llama_index_evaluation_print_results series_mean name eval_results metrics = Inr df \<longrightarrow>
         map fst df = ''retrievers'' # LLAMA_INDEX_RETRIEVAL_EVALUATION_METRICS)"
  by (auto simp: llama_index_evaluation_print_results_def Let_def
           split: sum.splits dest: mean_columns_names)

theorem print_results_ignores_metrics_witness:
  "llama_index_evaluation_print_results example_series_mean ''r'' [result_all, result_none] [''hit_rate'']
     = llama_index_evaluation_print_results example_series_mean ''r'' [result_all, result_none]
         [''hit_rate'', ''mrr'', ''recall'']
   \<and> map fst (projr (llama_index_evaluation_print_results example_series_mean ''r''
                       [result_all, result_none] [''hit_rate'']))
       = [''retrievers'', ''hit_rate'', ''mrr'', ''recall'']"
proof -
  have ret: "llama_index_evaluation_print_results example_series_mean ''r'' [result_all, result_none] [''hit_rate'']
          = Inr (projr (llama_index_evaluation_print_results example_series_mean ''r''
                          [result_all, result_none] [''hit_rate'']))"
    by (simp add: llama_index_evaluation_print_results_def LLAMA_INDEX_RETRIEVAL_EVALUATION_METRICS_def
          df_column_def result_all_def result_none_def)
  show ?thesis
    using print_results_ignores_metrics
            [of example_series_mean "''r''" "[result_all, result_none]" "[''hit_rate'']"] ret
    by (simp add: LLAMA_INDEX_RETRIEVAL_EVALUATION_METRICS_def)
qed

section \<open>Fetch failures and the cache across a run\<close>

lemma cache_inv_entry:
  "cache_inv env s \<Longrightarrow> web_page_content s u = Some d \<Longrightarrow>
     \<exists>raw. requests_get env u = Inr raw \<and> d = html2text env raw"
  unfolding cache_inv_def by blast





lemma nodes_loop_append:
  "nodes_loop env t (pre @ post) s =
     (case nodes_loop env t pre s of
        (Some e, s') \<Rightarrow> (Some e, s')
      | (None, s') \<Rightarrow> nodes_loop env t post s')"
  by (induction pre arbitrary: s) (auto split: prod.splits option.splits)

lemma nodes_loop_cache_kept:
  assumes "cache_inv env s0"
    and "nodes_loop env t pre s0 = (None, s)"
    and "nodes_loop env t (pre @ post) s0 = (r, s')"
    and "web_page_content s u = Some d"
  shows "web_page_content s' u = Some d"
proof -
  have inv: "cache_inv env s" using nodes_loop_inv[OF assms(1,2)] by simp
  have post: "nodes_loop env t post s = (r, s')"
    using assms(2,3) by (simp add: nodes_loop_append)
  show ?thesis using nodes_loop_inv[OF inv post] assms(4) by simp
qed

lemma distinct_count_list_le_1: "distinct xs \<Longrightarrow> count_list xs x \<le> 1"
  by (induction xs) (auto simp: count_list_0_iff)




lemmas enrich_eval =
  enrichment_call_def enrich_node_def init_state_def Let_def
  env_empty_reply_def env_padded_reply_def env_reply_def env_echo_def env_u2_down_def page_def
  chunk_a_def chunk_b_def chunk_c_def chunk_orphan_def

section \<open>The claims about the contextual enricher\<close>

text \<open>
  C2, as amended. On a heap \<open>h\<close> holding the input nodes: whenever \<open>__call__\<close>
  returns, it returns as many nodes as it was given, in the same order; each is a new object
  (an address beyond \<open>h\<close>, all different) with the text, the id and the relationships of
  the corresponding input node, and with that node's metadata plus an entry \<open>context\<close>,
  which holds the model's answer and may be empty; the objects of \<open>h\<close> are left as they
  were. It does return when every node has a \<open>SOURCE\<close> relationship and neither a fetch
  nor the model raises.
\<close>

theorem enrichment_returns_fresh_copies_in_order:
  assumes valid: "\<forall>a\<in>set nodes. a < length h"
  shows "(\<forall>out s'. enrichment_call env h nodes = (Inr out, s') \<longrightarrow>
            length out = length nodes
            \<and> distinct out
            \<and> take (length h) (heap s') = h
            \<and> (\<forall>i<length nodes.
                  length h \<le> out ! i \<and> out ! i < length (heap s')
                  \<and> node_text (heap s' ! (out ! i)) = node_text (h ! (nodes ! i))
                  \<and> node_id (heap s' ! (out ! i)) = node_id (h ! (nodes ! i))
                  \<and> relationships (heap s' ! (out ! i)) = relationships (h ! (nodes ! i))
                  \<and> (\<exists>c. metadata (heap s' ! (out ! i)) = (metadata (h ! (nodes ! i)))(''context'' \<mapsto> Str c))))
       \<and> ((\<forall>a\<in>set nodes. SOURCE \<in> fst ` set (relationships (h ! a)))
            \<and> (\<forall>u. \<exists>raw. requests_get env u = Inr raw)
            \<and> (\<forall>p. \<exists>c. llm_complete env p = Inr c)
           \<longrightarrow> (\<exists>out s'. enrichment_call env h nodes = (Inr out, s')))"
proof (intro conjI allI impI)
  fix out s'
  assume ret: "enrichment_call env h nodes = (Inr out, s')"
  have run: "nodes_loop env (length nodes) nodes (init_state h) = (None, s')"
    and out: "out = nodes_new s'"
    using ret by (auto simp: enrichment_call_def split: prod.splits option.splits)
  have valid0: "\<forall>a\<in>set nodes. a < length (heap (init_state h))"
    using valid by (simp add: init_state_def)
  note R = nodes_loop_returns[OF init_state_inv run valid0]
  have h0: "heap (init_state h) = h" "nodes_new (init_state h) = []"
    by (simp_all add: init_state_def)
  have outs: "out = [length h ..< length h + length nodes]"
    using R out h0 by simp
  show "length out = length nodes" using outs by simp
  show "distinct out" using outs by simp
  show "take (length h) (heap s') = h"
    using nodes_loop_heap_grows[OF run] h0 by simp
  fix i assume i: "i < length nodes"
  have oi: "out ! i = length h + i" using outs i by simp
  from R i h0 obtain c where
    hi: "heap s' ! (length h + i) = (h ! (nodes ! i))\<lparr>metadata := (metadata (h ! (nodes ! i)))(''context'' \<mapsto> Str c)\<rparr>"
    by auto
  have len: "length (heap s') = length h + length nodes" using R h0 by simp
  show "length h \<le> out ! i" using oi by simp
  show "out ! i < length (heap s')" using oi len i by simp
  show "node_text (heap s' ! (out ! i)) = node_text (h ! (nodes ! i))" using oi hi by simp
  show "node_id (heap s' ! (out ! i)) = node_id (h ! (nodes ! i))" using oi hi by simp
  show "relationships (heap s' ! (out ! i)) = relationships (h ! (nodes ! i))" using oi hi by simp
  show "\<exists>c. metadata (heap s' ! (out ! i)) = (metadata (h ! (nodes ! i)))(''context'' \<mapsto> Str c)"
    using oi hi by auto
next
  assume tot: "(\<forall>a\<in>set nodes. SOURCE \<in> fst ` set (relationships (h ! a)))
            \<and> (\<forall>u. \<exists>raw. requests_get env u = Inr raw)
            \<and> (\<forall>p. \<exists>c. llm_complete env p = Inr c)"
  have "\<forall>a\<in>set nodes. a < length (heap (init_state h))
                     \<and> SOURCE \<in> fst ` set (relationships (heap (init_state h) ! a))"
    using valid tot by (simp add: init_state_def)
  moreover have "\<forall>u. \<exists>raw. requests_get env u = Inr raw" "\<forall>p. \<exists>c. llm_complete env p = Inr c"
    using tot by blast+
  ultimately obtain s' where "nodes_loop env (length nodes) nodes (init_state h) = (None, s')"
    using nodes_loop_total[where env=env and s="init_state h" and as=nodes and t="length nodes"]
          init_state_inv[of env h]
    by blast
  then show "\<exists>out s'. enrichment_call env h nodes = (Inr out, s')"
    by (simp add: enrichment_call_def)
qed

theorem enrichment_returns_fresh_copies_in_order_witness:
  "length (projr (fst (enrichment_call env_padded_reply [chunk_a, chunk_b] [0, 1]))) = 2
   \<and> take 2 (heap (snd (enrichment_call env_padded_reply [chunk_a, chunk_b] [0, 1]))) = [chunk_a, chunk_b]
   \<and> node_text (heap (snd (enrichment_call env_padded_reply [chunk_a, chunk_b] [0, 1]))
                  ! (projr (fst (enrichment_call env_padded_reply [chunk_a, chunk_b] [0, 1])) ! 1))
       = ''beta''"
proof -
  let ?run = "enrichment_call env_padded_reply [chunk_a, chunk_b] [0, 1]"
  have valid: "\<forall>a\<in>set [0, 1]. a < length [chunk_a, chunk_b]" by simp
  have src: "\<forall>a\<in>set [0, 1]. SOURCE \<in> fst ` set (relationships ([chunk_a, chunk_b] ! a))"
    by (simp add: chunk_a_def chunk_b_def)
  have get: "\<forall>u. \<exists>raw. requests_get env_padded_reply u = Inr raw"
    by (simp add: env_padded_reply_def env_reply_def)
  have llm: "\<forall>p. \<exists>c. llm_complete env_padded_reply p = Inr c"
    by (simp add: env_padded_reply_def env_reply_def)
  note T = enrichment_returns_fresh_copies_in_order[OF valid, of env_padded_reply]
  from T src get llm obtain out s' where ret: "?run = (Inr out, s')" by blast
  from T ret have len: "length out = length [0::nat, 1]"
    and frame: "take (length [chunk_a, chunk_b]) (heap s') = [chunk_a, chunk_b]"
    and each: "\<forall>i<length [0::nat, 1].
                 node_text (heap s' ! (out ! i)) = node_text ([chunk_a, chunk_b] ! ([0, 1] ! i))"
    by blast+
  have "node_text (heap s' ! (out ! 1)) = ''beta''"
    using each by (simp add: chunk_b_def)
  then show ?thesis using ret len frame by (simp add: numeral_2_eq_2)
qed

text \<open>
  The claim as first stated asks for a non-empty \<open>context\<close>: a model that answers with
  the empty text leaves an empty one.
\<close>

theorem empty_completion_gives_empty_context:
  "fst (enrichment_call env_empty_reply [chunk_a] [0]) = Inr [1]
   \<and> metadata (heap (snd (enrichment_call env_empty_reply [chunk_a] [0])) ! 1) ''context'' = Some (Str [])"
  by (simp add: enrich_eval)

text \<open>
  C3, as amended. For every node returned, the value stored under \<open>context\<close> is the
  text of the model's answer to the prompt built from a cached document (the converted text
  of a fetched page) and the node's text, exactly as the model returned it.
\<close>

theorem context_is_completion_as_returned:
  assumes "\<forall>a\<in>set nodes. a < length h"
    and "enrichment_call env h nodes = (Inr out, s')"
    and "i < length nodes"
  shows "\<exists>url raw c.
           requests_get env url = Inr raw
           \<and> web_page_content s' url = Some (html2text env raw)
           \<and> llm_complete env (prompt (html2text env raw) (node_text (h ! (nodes ! i)))) = Inr c
           \<and> metadata (heap s' ! (out ! i)) ''context'' = Some (Str c)"
proof -
  have run: "nodes_loop env (length nodes) nodes (init_state h) = (None, s')"
    and out: "out = nodes_new s'"
    using assms(2) by (auto simp: enrichment_call_def split: prod.splits option.splits)
  have valid0: "\<forall>a\<in>set nodes. a < length (heap (init_state h))"
    using assms(1) by (simp add: init_state_def)
  note R = nodes_loop_returns[OF init_state_inv run valid0]
  have h0: "heap (init_state h) = h" "nodes_new (init_state h) = []"
    by (simp_all add: init_state_def)
  have oi: "out ! i = length h + i" using R out h0 assms(3) by simp
  from R assms(3) h0 obtain url doc c where
        d: "web_page_content s' url = Some doc"
    and c: "llm_complete env (prompt doc (node_text (h ! (nodes ! i)))) = Inr c"
    and hi: "heap s' ! (length h + i) = (h ! (nodes ! i))\<lparr>metadata := (metadata (h ! (nodes ! i)))(''context'' \<mapsto> Str c)\<rparr>"
    by auto
  have "cache_inv env s'" using nodes_loop_inv[OF init_state_inv run] by simp
  then obtain raw where "requests_get env url = Inr raw" "doc = html2text env raw"
    using cache_inv_entry[of env s' url doc] d by blast
  then show ?thesis using d c hi oi by auto
qed

theorem context_is_completion_as_returned_witness:
  "metadata (heap (snd (enrichment_call env_echo [chunk_a, chunk_b] [0, 1])) ! 3) ''context''
     = Some (Str (prompt ''u1'' ''beta''))"
proof -
  let ?run = "enrichment_call env_echo [chunk_a, chunk_b] [0, 1]"
  have valid: "\<forall>a\<in>set [0, 1]. a < length [chunk_a, chunk_b]" by simp
  have out: "fst ?run = Inr [2, 3]" by (simp add: enrich_eval)
  then have ev: "?run = (Inr [2, 3], snd ?run)" by (metis prod.collapse)
  have i: "(1::nat) < length [0::nat, 1]" by simp
  from context_is_completion_as_returned[OF valid ev i]
  obtain url raw c where
        "requests_get env_echo url = Inr raw"
    and "web_page_content (snd ?run) url = Some (html2text env_echo raw)"
    and "llm_complete env_echo (prompt (html2text env_echo raw) (node_text ([chunk_a, chunk_b] ! ([0, 1] ! 1)))) = Inr c"
    and "metadata (heap (snd ?run) ! ([2, 3] ! 1)) ''context'' = Some (Str c)"
    by blast
  then show ?thesis by (simp add: enrich_eval)
qed

text \<open>
  The claim as first stated has the answer trimmed: an answer with a blank on each side is
  stored with both.
\<close>

theorem padded_completion_stored_untrimmed:
  "fst (enrichment_call env_padded_reply [chunk_a] [0]) = Inr [1]
   \<and> metadata (heap (snd (enrichment_call env_padded_reply [chunk_a] [0])) ! 1) ''context''
       = Some (Str '' ctx '')
   \<and> strip '' ctx '' = ''ctx''"
  by (simp add: enrich_eval strip_def is_space_def)




text \<open>
  C5, as amended. When the first node of the batch has no \<open>SOURCE\<close> relationship, the
  run stops there with \<open>UnboundLocalError\<close> for the variable \<open>source_url\<close> (an error
  that does not name the node): nothing is fetched and nothing is returned.
\<close>

theorem first_chunk_without_source_raises:
  assumes "SOURCE \<notin> fst ` set (relationships (h ! a))"
  shows "fst (enrichment_call env h (a # rest)) = Inl (UnboundLocalError ''source_url'')
         \<and> nodes_new (snd (enrichment_call env h (a # rest))) = []
         \<and> fetched (snd (enrichment_call env h (a # rest))) = []"
  using assms relationships_loop_no_source[of "relationships (h ! a)" env]
  by (simp add: enrichment_call_def enrich_node_def init_state_def Let_def)

theorem first_chunk_without_source_raises_witness:
  "fst (enrichment_call env_echo [chunk_orphan, chunk_a] [0, 1]) = Inl (UnboundLocalError ''source_url'')
   \<and> nodes_new (snd (enrichment_call env_echo [chunk_orphan, chunk_a] [0, 1])) = []
   \<and> fetched (snd (enrichment_call env_echo [chunk_orphan, chunk_a] [0, 1])) = []"
proof -
  have "SOURCE \<notin> fst ` set (relationships ([chunk_orphan, chunk_a] ! 0))"
    by (simp add: chunk_orphan_def)
  then show ?thesis by (rule first_chunk_without_source_raises)
qed

text \<open>
  The claim as first stated has every node without a source fail: a node without one that
  follows a node with one is enriched, without any error, from the document of the node
  before it.
\<close>

theorem chunk_without_source_gets_previous_document:
  "fst (enrichment_call env_echo [chunk_a, chunk_orphan] [0, 1]) = Inr [2, 3]
   \<and> relationships (heap (snd (enrichment_call env_echo [chunk_a, chunk_orphan] [0, 1])) ! 3) = [(PREVIOUS, ''a'')]
   \<and> fetched (snd (enrichment_call env_echo [chunk_a, chunk_orphan] [0, 1])) = [''u1'']
   \<and> metadata (heap (snd (enrichment_call env_echo [chunk_a, chunk_orphan] [0, 1])) ! 2) ''context''
       = Some (Str (prompt ''u1'' ''alpha''))
   \<and> metadata (heap (snd (enrichment_call env_echo [chunk_a, chunk_orphan] [0, 1])) ! 3) ''context''
       = Some (Str (prompt ''u1'' ''omega''))"
  by (simp add: enrich_eval)

text \<open>
  C6. In one run, \<open>requests.get\<close> is called at most once for any URL, whether the run
  returns or raises; and an entry that the cache holds once some chunks have been processed
  is still there, unchanged, when the run ends.
\<close>

theorem each_document_fetched_at_most_once:
  "count_list (fetched (snd (enrichment_call env h nodes))) u \<le> 1
   \<and> (nodes = pre @ post
        \<and> nodes_loop env (length nodes) pre (init_state h) = (None, s)
        \<and> web_page_content s u = Some d
      \<longrightarrow> web_page_content (snd (enrichment_call env h nodes)) u = Some d)"
proof
  obtain r s' where run: "nodes_loop env (length nodes) nodes (init_state h) = (r, s')"
    by (cases "nodes_loop env (length nodes) nodes (init_state h)")
  have s': "snd (enrichment_call env h nodes) = s'"
    using run by (cases r) (simp_all add: enrichment_call_def)
  have "distinct (fetched s')" using nodes_loop_inv[OF init_state_inv run] by simp
  then show "count_list (fetched (snd (enrichment_call env h nodes))) u \<le> 1"
    unfolding s' by (rule distinct_count_list_le_1)
  show "nodes = pre @ post
        \<and> nodes_loop env (length nodes) pre (init_state h) = (None, s)
        \<and> web_page_content s u = Some d
      \<longrightarrow> web_page_content (snd (enrichment_call env h nodes)) u = Some d"
  proof
    assume a: "nodes = pre @ post
        \<and> nodes_loop env (length nodes) pre (init_state h) = (None, s)
        \<and> web_page_content s u = Some d"
    then have n: "nodes = pre @ post"
      and pre: "nodes_loop env (length nodes) pre (init_state h) = (None, s)"
      and d: "web_page_content s u = Some d"
      by blast+
    have run': "nodes_loop env (length nodes) (pre @ post) (init_state h) = (r, s')"
      using run n by blast
    show "web_page_content (snd (enrichment_call env h nodes)) u = Some d"
      unfolding s' using nodes_loop_cache_kept[OF init_state_inv pre run' d] .
  qed
qed

theorem each_document_fetched_at_most_once_witness:
  "count_list (fetched (snd (enrichment_call env_padded_reply [chunk_a, chunk_b] [0, 1]))) ''u1'' \<le> 1
   \<and> web_page_content (snd (enrichment_call env_padded_reply [chunk_a, chunk_b] [0, 1])) ''u1'' = Some ''u1''"
proof -
  let ?s = "snd (nodes_loop env_padded_reply (length [0::nat, 1]) [0] (init_state [chunk_a, chunk_b]))"
  have n: "[0::nat, 1] = [0] @ [1]" by simp
  have "fst (nodes_loop env_padded_reply (length [0::nat, 1]) [0] (init_state [chunk_a, chunk_b])) = None"
    by (simp add: enrich_eval)
  then have pre: "nodes_loop env_padded_reply (length [0::nat, 1]) [0] (init_state [chunk_a, chunk_b]) = (None, ?s)"
    by (metis prod.collapse)
  have d: "web_page_content ?s ''u1'' = Some ''u1''" by (simp add: enrich_eval)
  show ?thesis
    using each_document_fetched_at_most_once
            [of env_padded_reply "[chunk_a, chunk_b]" "[0, 1]" "''u1''" "[0]" "[1]" ?s "''u1''"]
          n pre d
    by blast
qed

end
